theory Spec2Isabelle
  imports Complex_Main "HOL-Library.Word" "HOL-Library.Sublist"
begin

section \<open>Strings and the regular expressions of the source\<close>

text \<open>
  A Python 3 \<^verbatim>\<open>str\<close> is a sequence of Unicode code points, so it is modelled as a list
  of natural numbers; \<open>ustr\<close> embeds an ASCII literal. The patterns that the claims depend
  on are translated into first-match functions: \<^verbatim>\<open>re.findall(pat, s)\<close> scans \<open>s\<close> from the
  left, so \<^verbatim>\<open>re.findall(pat, s)[0]\<close> is the match at the leftmost position where the
  pattern succeeds, and the list is empty exactly when no position succeeds.
\<close>

type_synonym pystr = "nat list"

definition ustr :: "string \<Rightarrow> pystr" where
  "ustr s = map of_char s"

text \<open>Matching a literal at the start of a string: the rest of the string, if it starts so.\<close>

fun strip_prefix :: "'a list \<Rightarrow> 'a list \<Rightarrow> 'a list option" where
  "strip_prefix [] s = Some s"
| "strip_prefix (p # ps) [] = None"
| "strip_prefix (p # ps) (c # cs) = (if p = c then strip_prefix ps cs else None)"

text \<open>The class \<^verbatim>\<open>[a-z0-9\.\-\:]\<close> of the URL pattern lists ASCII characters only.\<close>

definition host_char :: "nat \<Rightarrow> bool" where
  "host_char c \<longleftrightarrow> c \<in> set (ustr ''abcdefghijklmnopqrstuvwxyz0123456789.-:'')"

text \<open>
  The class \<^verbatim>\<open>\w\<close> of a \<^verbatim>\<open>str\<close> pattern compiled without \<^verbatim>\<open>re.ASCII\<close>: below code point
  128 it is letters, digits and the underscore; from 128 on it is what the Unicode
  database of the interpreter classifies as alphanumeric. That table is not part of the
  repository, so it is the parameter \<open>uw\<close> of every function that uses the class, and
  every theorem holds for every such table.
\<close>

definition word_char :: "(nat \<Rightarrow> bool) \<Rightarrow> nat \<Rightarrow> bool" where
  "word_char uw c \<longleftrightarrow>
     (if c < 128
      then c \<in> set (ustr ''abcdefghijklmnopqrstuvwxyzABCDEFGHIJKLMNOPQRSTUVWXYZ0123456789_'')
      else uw c)"

text \<open>
  \<^verbatim>\<open>url_pattern = re.compile('(?<=\:\/\/)[a-z0-9\.\-\:]+')\<close>: a position matches when the
  three characters before it are \<^verbatim>\<open>://\<close> and at least one class character follows; the
  match is the longest run of class characters. \<open>is_url_r\<close> is \<^verbatim>\<open>_is_url(url, r=True)\<close>
  (\<open>None\<close> for the source's \<^verbatim>\<open>False\<close>), \<open>is_url\<close> is \<^verbatim>\<open>_is_url(url)\<close>.
\<close>

fun is_url_r :: "pystr \<Rightarrow> pystr option" where
  "is_url_r (c1 # c2 # c3 # rest) =
     (if [c1, c2, c3] = ustr ''://'' \<and> takeWhile host_char rest \<noteq> []
      then Some (takeWhile host_char rest)
      else is_url_r (c2 # c3 # rest))"
| "is_url_r _ = None"

definition is_url :: "pystr \<Rightarrow> bool" where
  "is_url url \<longleftrightarrow> is_url_r url \<noteq> None"

text \<open>
  \<^verbatim>\<open>anonym_pattern = re.compile('anonymisiert-[\w]+\-[\w]+')\<close>. The hyphen is not a word
  character, so the greedy first run cannot give characters back: at a position the
  pattern matches exactly when the literal is followed by a non-empty maximal run of
  word characters, a hyphen, and another non-empty run.
\<close>

definition anonym_match_at :: "(nat \<Rightarrow> bool) \<Rightarrow> pystr \<Rightarrow> pystr option" where
  "anonym_match_at uw s =
     (case strip_prefix (ustr ''anonymisiert-'') s of
        None \<Rightarrow> None
      | Some r \<Rightarrow>
          (case dropWhile (word_char uw) r of
             [] \<Rightarrow> None
           | c # r' \<Rightarrow>
               if takeWhile (word_char uw) r \<noteq> [] \<and> c = of_char CHR ''-''
                  \<and> takeWhile (word_char uw) r' \<noteq> []
               then Some (ustr ''anonymisiert-'' @ takeWhile (word_char uw) r
                          @ ustr ''-'' @ takeWhile (word_char uw) r')
               else None))"

fun anonym_first :: "(nat \<Rightarrow> bool) \<Rightarrow> pystr \<Rightarrow> pystr option" where
  "anonym_first uw [] = None"
| "anonym_first uw (c # cs) =
     (case anonym_match_at uw (c # cs) of
        Some m \<Rightarrow> Some m
      | None \<Rightarrow> anonym_first uw cs)"

section \<open>Domain stemming\<close>

text \<open>
  \<^verbatim>\<open>_stem_url\<close>: when the URL pattern matches, its first match with a leading \<^verbatim>\<open>www.\<close>
  removed; otherwise the first anonymised token if there is one, else the string without
  a trailing \<^verbatim>\<open>/***\<close> (\<^verbatim>\<open>url[:-5:-1] == '***/'\<close> compares the last four characters, read
  backwards), else the string itself.
\<close>

definition stem_url :: "(nat \<Rightarrow> bool) \<Rightarrow> pystr \<Rightarrow> pystr" where
  "stem_url uw url =
     (case is_url_r url of
        Some stemmed_url \<Rightarrow>
          (if take 4 stemmed_url = ustr ''www.'' then drop 4 stemmed_url else stemmed_url)
      | None \<Rightarrow>
          (case anonym_first uw url of
             Some m \<Rightarrow> m
           | None \<Rightarrow>
               (if take 4 (rev url) = ustr ''***/'' then take (length url - 4) url else url)))"

section \<open>Errors, the canonical store and its tables\<close>

text \<open>
  The exceptions of the source that the modelled functions can raise. A function that can
  raise returns a sum whose left injection carries the exception.
\<close>

datatype py_error =
  ValueError | KeyError | IndexError | TypeError | ZeroDivisionError | OverflowError
  | UnicodeEncodeError

text \<open>
  The canonical store is the SQLite file that \<^verbatim>\<open>_create_db\<close> creates from
  \<^verbatim>\<open>data/schema.sql\<close>. The schema is not among the source files; the columns are those that
  the queries of the source name (\<^verbatim>\<open>export\<close> lists all twelve). Columns that the source
  passes to string or integer operations without a test for \<^verbatim>\<open>None\<close> are modelled as
  holding a value; the remaining columns are nullable.
\<close>

record url_row =
  u_id :: int
  u_url :: pystr
  u_title :: "pystr option"
  u_rev_host :: "pystr option"
  u_visit_count :: int
  u_typed :: "int option"
  u_last_visit_date :: "rat option"
  u_redirect_urls :: "pystr option"

record visit_row =
  v_id :: "int option"
  v_url_id :: int
  v_visit_date :: rat
  v_visit_type :: "int option"
  v_referrer :: "pystr option"

record store =
  urls_tbl :: "url_row list"
  visits_tbl :: "visit_row list"

section \<open>Visit aggregation\<close>

text \<open>
  \<^verbatim>\<open>visits\<close> reads the join of the two tables,
  \<^verbatim>\<open>SELECT url, visit_count, urls.id FROM urls, visits WHERE urls.id = visits.url_id\<close>,
  with \<^verbatim>\<open>AND visit_date >= t AND visit_date < tk\<close> when a date is given; \<open>t\<close> and \<open>tk\<close> are
  the numbers that \<^verbatim>\<open>_date_conv\<close> computes from the date strings. SQLite fixes no order
  for the joined rows; the model lists them by URL row, then by visit row.
\<close>

type_synonym visit_join_row = "pystr \<times> int \<times> int"

definition date_ok :: "(rat \<times> rat) option \<Rightarrow> visit_row \<Rightarrow> bool" where
  "date_ok date v =
     (case date of None \<Rightarrow> True | Some (t, tk) \<Rightarrow> t \<le> v_visit_date v \<and> v_visit_date v < tk)"

definition visits_query :: "store \<Rightarrow> (rat \<times> rat) option \<Rightarrow> visit_join_row list" where
  "visits_query st date =
     concat (map (\<lambda>u. map (\<lambda>v. (u_url u, u_visit_count u, u_id u))
                          (filter (\<lambda>v. u_id u = v_url_id v \<and> date_ok date v) (visits_tbl st)))
                 (urls_tbl st))"

text \<open>
  The dictionary \<^verbatim>\<open>d\<close> keeps its keys in insertion order, so it is an association list
  with distinct keys; \<open>dict_add d k c\<close> is \<^verbatim>\<open>d[k] += c\<close> for a key that is present. The loop
  of \<^verbatim>\<open>visits\<close> creates the key of the row's stemmed domain when it is new, and adds the
  row's count only when the row's URL identifier has not been seen.
\<close>

fun dict_add :: "(pystr \<times> int) list \<Rightarrow> pystr \<Rightarrow> int \<Rightarrow> (pystr \<times> int) list" where
  "dict_add [] k c = []"
| "dict_add ((k', v) # d) k c = (if k' = k then (k', v + c) # d else (k', v) # dict_add d k c)"

fun visits_loop ::
  "(nat \<Rightarrow> bool) \<Rightarrow> visit_join_row list \<Rightarrow> (pystr \<times> int) list \<Rightarrow> int set \<Rightarrow> (pystr \<times> int) list" where
  "visits_loop uw [] d unique_id = d"
| "visits_loop uw ((url, count, uid) # visits) d unique_id =
     (let domain = stem_url uw url;
          d1 = (if domain \<notin> set (map fst d) then d @ [(domain, 0)] else d)
      in if uid \<notin> unique_id
         then visits_loop uw visits (dict_add d1 domain count) (insert uid unique_id)
         else visits_loop uw visits d1 unique_id)"

text \<open>Python slices \<^verbatim>\<open>xs[i:]\<close> and \<^verbatim>\<open>xs[:i]\<close>, for an index of either sign.\<close>

definition py_slice_from :: "'a list \<Rightarrow> int \<Rightarrow> 'a list" where
  "py_slice_from xs i =
     (if i < 0 then drop (nat (int (length xs) + i)) xs else drop (nat i) xs)"

definition py_slice_to :: "'a list \<Rightarrow> int \<Rightarrow> 'a list" where
  "py_slice_to xs i =
     (if i < 0 then take (nat (int (length xs) + i)) xs else take (nat i) xs)"

text \<open>
  \<^verbatim>\<open>[round((v / total_n) * 100, 2) for v in list(od.values())]\<close> divides once per selected
  value, and the true division of two integers raises \<^verbatim>\<open>ZeroDivisionError\<close> exactly when
  the divisor is zero. The quotients are floats that only the plot reads, so the model
  keeps the exception and not the values.
\<close>

definition perc_error :: "int \<Rightarrow> int list \<Rightarrow> py_error option" where
  "perc_error total_n vs = (if vs \<noteq> [] \<and> total_n = 0 then Some ZeroDivisionError else None)"

text \<open>
  The body of \<^verbatim>\<open>visits\<close> after the query: the loop, the total, the default of \<^verbatim>\<open>n\<close>, the
  stable sort by count, the slice (\<^verbatim>\<open>[-n:]\<close> when \<^verbatim>\<open>ascending == False\<close>, else \<^verbatim>\<open>[:n]\<close>),
  the percentages, and the result: the ordered mapping, or \<^verbatim>\<open>None\<close> after plotting (the
  plot itself is drawn by an external library and is not modelled).
\<close>

definition visits_of_rows ::
  "(nat \<Rightarrow> bool) \<Rightarrow> visit_join_row list \<Rightarrow> int option \<Rightarrow> bool \<Rightarrow> bool
     \<Rightarrow> py_error + (pystr \<times> int) list option" where
  "visits_of_rows uw rows n ascending plot =
     (let d = visits_loop uw rows [] {};
          total_n = sum_list (map snd d);
          n' = (case n of None \<Rightarrow> total_n | Some k \<Rightarrow> k);
          od = (if \<not> ascending then py_slice_from (sort_key snd d) (- n')
                else py_slice_to (sort_key snd d) n')
      in case perc_error total_n (map snd od) of
           Some e \<Rightarrow> Inl e
         | None \<Rightarrow> if plot then Inr None else Inr (Some od))"

definition visits ::
  "(nat \<Rightarrow> bool) \<Rightarrow> store \<Rightarrow> (rat \<times> rat) option \<Rightarrow> int option \<Rightarrow> bool \<Rightarrow> bool
     \<Rightarrow> py_error + (pystr \<times> int) list option" where
  "visits uw st date n ascending plot = visits_of_rows uw (visits_query st date) n ascending plot"







section \<open>Anonymisation\<close>




text \<open>
  \<open>hex_digits k n\<close> is the number \<open>n\<close> in \<open>k\<close> lower-case hexadecimal digits, as
  \<^verbatim>\<open>'%0kx' % n\<close> prints it when \<open>n\<close> has at most \<open>k\<close> digits. \<^verbatim>\<open>uuid.uuid4()\<close> is a 128-bit
  number and \<^verbatim>\<open>.hex\<close> prints it in 32 digits; a SHA-256 digest has 256 bits and
  \<^verbatim>\<open>.hexdigest()\<close> prints it in 64.
\<close>

fun hex_digits :: "nat \<Rightarrow> nat \<Rightarrow> pystr" where
  "hex_digits 0 n = []"
| "hex_digits (Suc k) n = hex_digits k (n div 16) @ [ustr ''0123456789abcdef'' ! (n mod 16)]"

definition uuid_hex :: "128 word \<Rightarrow> pystr" where
  "uuid_hex u = hex_digits 32 (unat u)"















section \<open>Properties of the string functions\<close>

lemma strip_prefix_Some: "strip_prefix p s = Some r \<longleftrightarrow> s = p @ r"
  by (induction p s rule: strip_prefix.induct) auto

lemma strip_prefix_append: "strip_prefix p (p @ r) = Some r"
  by (simp add: strip_prefix_Some)

lemma slash_code: "of_char CHR ''/'' = (47::nat)"
  by simp

lemma hyphen_code: "of_char CHR ''-'' = (45::nat)"
  by simp

lemma is_url_r_host: "is_url_r x = Some h \<Longrightarrow> h \<noteq> [] \<and> (\<forall>c\<in>set h. host_char c)"
proof (induction x rule: is_url_r.induct)
  case (1 c1 c2 c3 rest)
  then show ?case
    by (auto split: if_splits dest: set_takeWhileD)
qed simp_all

lemma is_url_r_no_slash: "47 \<notin> set y \<Longrightarrow> is_url_r y = None"
  by (induction y rule: is_url_r.induct) (auto simp: ustr_def)

lemma host_char_not_slash: "host_char c \<Longrightarrow> c \<noteq> 47"
  by (auto simp: host_char_def ustr_def)

lemma word_char_not_slash: "\<not> word_char uw 47"
  by (simp add: word_char_def ustr_def)

lemma word_char_not_hyphen: "\<not> word_char uw 45"
  by (simp add: word_char_def ustr_def)

lemma takeWhile_append_nonempty: "takeWhile P xs \<noteq> [] \<Longrightarrow> takeWhile P (xs @ ys) \<noteq> []"
  by (cases xs) (auto split: if_splits)

lemma is_url_r_append: "is_url_r y \<noteq> None \<Longrightarrow> is_url_r (y @ z) \<noteq> None"
proof (induction y rule: is_url_r.induct)
  case (1 c1 c2 c3 rest)
  then show ?case
    by (auto simp: takeWhile_append_nonempty split: if_splits)
qed simp_all

lemma takeWhile_stop: "\<not> P c \<Longrightarrow> takeWhile P (xs @ c # ys) = takeWhile P xs"
  by (induction xs) auto

lemma dropWhile_stop: "\<not> P c \<Longrightarrow> dropWhile P (xs @ c # ys) = dropWhile P xs @ c # ys"
  by (induction xs) auto

lemma takeWhile_all: "\<forall>x\<in>set xs. P x \<Longrightarrow> takeWhile P xs = xs"
  by (induction xs) auto

text \<open>The shape of a token match: the literal, a word run, a hyphen, a word run.\<close>

lemma anonym_match_at_shape:
  assumes "anonym_match_at uw s = Some m"
  obtains r r' where "s = ustr ''anonymisiert-'' @ r"
    and "dropWhile (word_char uw) r = 45 # r'"
    and "takeWhile (word_char uw) r \<noteq> []"
    and "takeWhile (word_char uw) r' \<noteq> []"
    and "m = ustr ''anonymisiert-'' @ takeWhile (word_char uw) r @ 45 # takeWhile (word_char uw) r'"
proof -
  from assms obtain r where s: "s = ustr ''anonymisiert-'' @ r"
    by (auto simp: anonym_match_at_def strip_prefix_Some split: option.splits)
  from assms obtain r' where "dropWhile (word_char uw) r = 45 # r'"
    and "takeWhile (word_char uw) r \<noteq> []" and "takeWhile (word_char uw) r' \<noteq> []"
    and "m = ustr ''anonymisiert-'' @ takeWhile (word_char uw) r @ 45 # takeWhile (word_char uw) r'"
    unfolding s anonym_match_at_def strip_prefix_append
    by (auto simp: ustr_def split: list.splits if_splits)
  with s that show ?thesis by blast
qed

lemma anonym_match_at_intro:
  assumes "dropWhile (word_char uw) r = 45 # r'"
    and "takeWhile (word_char uw) r \<noteq> []"
    and "takeWhile (word_char uw) r' \<noteq> []"
  shows "anonym_match_at uw (ustr ''anonymisiert-'' @ r) =
     Some (ustr ''anonymisiert-'' @ takeWhile (word_char uw) r @ 45 # takeWhile (word_char uw) r')"
  unfolding anonym_match_at_def strip_prefix_append using assms
  by (simp add: ustr_def)

lemma anonym_match_at_append:
  assumes "anonym_match_at uw s = Some m" and "\<not> word_char uw c"
  shows "anonym_match_at uw (s @ c # z) = Some m"
proof -
  from assms(1) obtain r r' where s: "s = ustr ''anonymisiert-'' @ r"
    and d: "dropWhile (word_char uw) r = 45 # r'"
    and a: "takeWhile (word_char uw) r \<noteq> []" and b: "takeWhile (word_char uw) r' \<noteq> []"
    and m: "m = ustr ''anonymisiert-'' @ takeWhile (word_char uw) r @ 45 # takeWhile (word_char uw) r'"
    by (rule anonym_match_at_shape)
  have d': "dropWhile (word_char uw) (r @ c # z) = 45 # (r' @ c # z)"
    using assms(2) d by (simp add: dropWhile_stop)
  have a': "takeWhile (word_char uw) (r @ c # z) = takeWhile (word_char uw) r"
    using assms(2) by (simp add: takeWhile_stop)
  have b': "takeWhile (word_char uw) (r' @ c # z) = takeWhile (word_char uw) r'"
    using assms(2) by (simp add: takeWhile_stop)
  have "anonym_match_at uw (ustr ''anonymisiert-'' @ (r @ c # z)) = Some m"
    using anonym_match_at_intro[OF d'] a b unfolding a' b' m by simp
  then show ?thesis unfolding s by simp
qed

lemma anonym_first_append:
  "anonym_first uw y \<noteq> None \<Longrightarrow> \<not> word_char uw c \<Longrightarrow> anonym_first uw (y @ c # z) \<noteq> None"
proof (induction y)
  case Nil
  then show ?case by simp
next
  case (Cons a y)
  show ?case
  proof (cases "anonym_match_at uw (a # y)")
    case None
    with Cons show ?thesis by (auto split: option.splits)
  next
    case (Some m)
    from anonym_match_at_append[OF Some Cons.prems(2), of z]
    show ?thesis by simp
  qed
qed

lemma anonym_match_at_token:
  assumes "anonym_match_at uw s = Some m"
  shows "anonym_match_at uw m = Some m \<and> 47 \<notin> set m \<and> m \<noteq> []"
proof -
  from assms obtain r r' where a: "takeWhile (word_char uw) r \<noteq> []"
    and b: "takeWhile (word_char uw) r' \<noteq> []"
    and m: "m = ustr ''anonymisiert-'' @ takeWhile (word_char uw) r @ 45 # takeWhile (word_char uw) r'"
    by (rule anonym_match_at_shape)
  define A where "A = takeWhile (word_char uw) r"
  define B where "B = takeWhile (word_char uw) r'"
  have wa: "\<forall>c\<in>set A. word_char uw c" and wb: "\<forall>c\<in>set B. word_char uw c"
    unfolding A_def B_def by (auto dest: set_takeWhileD)
  have ne: "A \<noteq> []" "B \<noteq> []" using a b by (simp_all add: A_def B_def)
  have mAB: "m = ustr ''anonymisiert-'' @ (A @ 45 # B)"
    unfolding m A_def B_def by simp
  have tA: "takeWhile (word_char uw) (A @ 45 # B) = A"
    using wa by (simp add: takeWhile_stop word_char_not_hyphen takeWhile_all)
  have dA: "dropWhile (word_char uw) (A @ 45 # B) = 45 # B"
    using wa by (simp add: dropWhile_stop word_char_not_hyphen)
  have tB: "takeWhile (word_char uw) B = B"
    using wb by (simp add: takeWhile_all)
  have 1: "anonym_match_at uw m = Some m"
    using anonym_match_at_intro[OF dA] ne unfolding tA tB mAB by simp
  have "47 \<notin> set A" "47 \<notin> set B"
    using wa wb word_char_not_slash by auto
  then have 2: "47 \<notin> set m"
    unfolding mAB by (simp add: ustr_def)
  have 3: "m \<noteq> []" unfolding mAB by (simp add: ustr_def)
  from 1 2 3 show ?thesis by simp
qed

lemma anonym_first_at_head:
  "anonym_match_at uw s = Some m \<Longrightarrow> anonym_first uw s = Some m"
  by (cases s) (simp_all add: anonym_match_at_def ustr_def)

lemma anonym_first_token:
  "anonym_first uw x = Some m \<Longrightarrow> anonym_first uw m = Some m \<and> 47 \<notin> set m"
proof (induction x)
  case Nil
  then show ?case by simp
next
  case (Cons a x)
  show ?case
  proof (cases "anonym_match_at uw (a # x)")
    case None
    with Cons show ?thesis by simp
  next
    case (Some m')
    with Cons.prems have mm: "m' = m" by simp
    from anonym_match_at_token[OF Some] mm
    have t: "anonym_match_at uw m = Some m" "47 \<notin> set m" "m \<noteq> []" by simp_all
    then obtain c cs where "m = c # cs" by (cases m) auto
    with t show ?thesis by simp
  qed
qed

text \<open>What stemming returns is never matched by the URL pattern.\<close>

lemma placeholder_needs_slash: "take 4 (rev y) = ustr ''***/'' \<Longrightarrow> 47 \<in> set y"
proof -
  assume e: "take 4 (rev y) = ustr ''***/''"
  have "47 \<in> set (take 4 (rev y))" unfolding e by (simp add: ustr_def)
  then show ?thesis by (auto dest: in_set_takeD)
qed

lemma placeholder_split:
  assumes "take 4 (rev x) = ustr ''***/''"
  shows "x = take (length x - 4) x @ ustr ''/***''"
proof -
  from assms have rx: "rev x = ustr ''***/'' @ drop 4 (rev x)"
    by (metis append_take_drop_id)
  have "x = rev (rev x)" by simp
  also have "\<dots> = rev (drop 4 (rev x)) @ ustr ''/***''"
    by (subst rx) (simp add: ustr_def del: rev_rev_ident)
  finally have "x = rev (drop 4 (rev x)) @ ustr ''/***''" .
  then show ?thesis by (simp add: rev_drop)
qed


section \<open>When domain stemming is idempotent\<close>

text \<open>
  Claim C4, as amended. Stemming twice gives the same as stemming once for every string
  \<open>x\<close> except in exactly two situations. First: the URL pattern of \<^verbatim>\<open>_is_url\<close> matches
  \<open>x\<close>, and the stemmed host contains an anonymised token that is not the whole stemmed
  host. Second: the URL pattern does not match \<open>x\<close>, \<open>x\<close> contains no anonymised token,
  and \<open>x\<close> ends in the placeholder twice (\<^verbatim>\<open>/***/***\<close>). In every other case, and in
  particular for every string that the URL pattern does not match and that contains an
  anonymised token, \<open>stem_url uw (stem_url uw x) = stem_url uw x\<close>. This holds for every
  classification \<open>uw\<close> of the code points from 128 on.
\<close>

theorem stem_url_idempotent_iff:
  "stem_url uw (stem_url uw x) = stem_url uw x \<longleftrightarrow>
     (if is_url x
      then anonym_first uw (stem_url uw x) = None
           \<or> anonym_first uw (stem_url uw x) = Some (stem_url uw x)
      else anonym_first uw x \<noteq> None \<or> take 8 (rev x) \<noteq> ustr ''***/***/'')"
proof (cases "is_url_r x")
  case (Some h)
  define y where "y = stem_url uw x"
  from is_url_r_host[OF Some] have hc: "\<forall>c\<in>set h. host_char c" by simp
  have st: "y = (if take 4 h = ustr ''www.'' then drop 4 h else h)"
    by (simp add: y_def stem_url_def Some)
  have "set y \<subseteq> set h"
    unfolding st by (auto dest: in_set_dropD)
  with hc have ns: "47 \<notin> set y"
    using host_char_not_slash by blast
  then have u: "is_url_r y = None" by (rule is_url_r_no_slash)
  have p: "take 4 (rev y) \<noteq> ustr ''***/''"
    using ns placeholder_needs_slash by blast
  have "stem_url uw y = (case anonym_first uw y of Some m \<Rightarrow> m | None \<Rightarrow> y)"
    using u p by (simp add: stem_url_def)
  then have "stem_url uw y = y \<longleftrightarrow> anonym_first uw y = None \<or> anonym_first uw y = Some y"
    by (auto split: option.splits)
  with Some show ?thesis by (simp add: y_def is_url_def)
next
  case None
  show ?thesis
  proof (cases "anonym_first uw x")
    case (Some m)
    from anonym_first_token[OF Some]
    have t: "anonym_first uw m = Some m" "47 \<notin> set m" by simp_all
    have sx: "stem_url uw x = m" by (simp add: stem_url_def None Some)
    from t(2) have "is_url_r m = None" by (rule is_url_r_no_slash)
    with t(1) have "stem_url uw m = m" by (simp add: stem_url_def)
    with None Some sx show ?thesis by (simp add: is_url_def)
  next
    case an: None
    show ?thesis
    proof (cases "take 4 (rev x) = ustr ''***/''")
      case False
      with None an have sx: "stem_url uw x = x" by (simp add: stem_url_def)
      have "take 8 (rev x) \<noteq> ustr ''***/***/''"
      proof
        assume "take 8 (rev x) = ustr ''***/***/''"
        then have "take 4 (take 8 (rev x)) = ustr ''***/''" by (simp add: ustr_def)
        with False show False by simp
      qed
      with None an sx show ?thesis by (simp add: is_url_def)
    next
      case True
      define y where "y = take (length x - 4) x"
      have sx: "stem_url uw x = y" using True None an by (simp add: stem_url_def y_def)
      have xy: "x = y @ ustr ''/***''"
        unfolding y_def using True by (rule placeholder_split)
      have uy: "is_url_r y = None"
      proof (rule ccontr)
        assume "is_url_r y \<noteq> None"
        then have "is_url_r (y @ ustr ''/***'') \<noteq> None" by (rule is_url_r_append)
        with None xy show False by simp
      qed
      have ay: "anonym_first uw y = None"
      proof (rule ccontr)
        assume "anonym_first uw y \<noteq> None"
        then have "anonym_first uw (y @ 47 # ustr ''***'') \<noteq> None"
          using word_char_not_slash by (rule anonym_first_append)
        moreover have "ustr ''/***'' = 47 # ustr ''***''"
          by (simp add: ustr_def)
        ultimately show False using an xy by simp
      qed
      have sy: "stem_url uw y =
          (if take 4 (rev y) = ustr ''***/'' then take (length y - 4) y else y)"
        using uy ay by (simp add: stem_url_def)
      have ly: "take 4 (rev y) = ustr ''***/'' \<Longrightarrow> take (length y - 4) y \<noteq> y"
      proof -
        assume e: "take 4 (rev y) = ustr ''***/''"
        have "length (take 4 (rev y)) = 4" unfolding e by (simp add: ustr_def)
        then have "4 \<le> length y" by simp
        then have "length (take (length y - 4) y) \<noteq> length y" by simp
        then show ?thesis by metis
      qed
      have "rev x = ustr ''***/'' @ rev y"
        by (subst xy) (simp add: ustr_def)
      then have t8: "take 8 (rev x) = ustr ''***/'' @ take 4 (rev y)"
        by (simp add: ustr_def)
      have "take 8 (rev x) = ustr ''***/***/'' \<longleftrightarrow> take 4 (rev y) = ustr ''***/''"
        unfolding t8 by (simp add: ustr_def)
      moreover have "stem_url uw y = y \<longleftrightarrow> take 4 (rev y) \<noteq> ustr ''***/''"
        using sy ly by auto
      ultimately show ?thesis
        using None an sx by (simp add: is_url_def)
    qed
  qed
qed

theorem stem_url_idempotent_iff_witness:
  "\<forall>uw. is_url (ustr ''http://www.example.com/index.html'')
     \<and> stem_url uw (ustr ''http://www.example.com/index.html'') = ustr ''example.com''
     \<and> anonym_first uw (ustr ''example.com'') = None
     \<and> stem_url uw (stem_url uw (ustr ''http://www.example.com/index.html''))
         = stem_url uw (ustr ''http://www.example.com/index.html'')"
proof
  fix uw :: "nat \<Rightarrow> bool"
  have u: "is_url (ustr ''http://www.example.com/index.html'')"
    by code_simp
  have s: "stem_url uw (ustr ''http://www.example.com/index.html'') = ustr ''example.com''"
    by code_simp
  have a: "anonym_first uw (ustr ''example.com'') = None"
    by code_simp
  from stem_url_idempotent_iff [of uw "ustr ''http://www.example.com/index.html''"] u a s
  show "is_url (ustr ''http://www.example.com/index.html'')
     \<and> stem_url uw (ustr ''http://www.example.com/index.html'') = ustr ''example.com''
     \<and> anonym_first uw (ustr ''example.com'') = None
     \<and> stem_url uw (stem_url uw (ustr ''http://www.example.com/index.html''))
         = stem_url uw (ustr ''http://www.example.com/index.html'')"
    by simp
qed

text \<open>
  The claim as stated, for every input string, fails: a host that contains the token
  pattern and more is cut down to the token by the second pass.
\<close>

theorem stem_url_not_idempotent:
  "\<not> (\<forall>uw x. stem_url uw (stem_url uw x) = stem_url uw x)"
proof
  assume "\<forall>uw x. stem_url uw (stem_url uw x) = stem_url uw x"
  then have "stem_url (\<lambda>c. False) (stem_url (\<lambda>c. False) (ustr ''http://anonymisiert-a-b.com''))
      = stem_url (\<lambda>c. False) (ustr ''http://anonymisiert-a-b.com'')"
    by blast
  moreover have "stem_url (\<lambda>c. False) (ustr ''http://anonymisiert-a-b.com'')
      = ustr ''anonymisiert-a-b.com''"
    by code_simp
  moreover have "stem_url (\<lambda>c. False) (ustr ''anonymisiert-a-b.com'') = ustr ''anonymisiert-a-b''"
    by code_simp
  ultimately show False by (simp add: ustr_def)
qed

text \<open>
  Further instances, for every classification \<open>uw\<close>: the token-bearing host is cut down
  whatever the table says, a host that is exactly a token is stable, the doubled
  placeholder loses one placeholder per pass, a pattern miss on an upper-case host falls
  through to the placeholder rule, and a token with non-ASCII word characters is stable
  when the table classifies them as word characters.
\<close>

lemma stem_url_token_host:
  "stem_url uw (ustr ''http://anonymisiert-a-b.com'') = ustr ''anonymisiert-a-b.com''
   \<and> stem_url uw (ustr ''anonymisiert-a-b.com'') = ustr ''anonymisiert-a-b''"
  by code_simp

lemma stem_url_exact_token_host:
  "stem_url uw (ustr ''http://anonymisiert-a-b/index.html'') = ustr ''anonymisiert-a-b''
   \<and> stem_url uw (ustr ''anonymisiert-a-b'') = ustr ''anonymisiert-a-b''"
  by code_simp

lemma stem_url_twice_placeholder:
  "stem_url uw (ustr ''example.com/***/***'') = ustr ''example.com/***''
   \<and> stem_url uw (ustr ''example.com/***'') = ustr ''example.com''"
  by code_simp

lemma stem_url_upper_case_host:
  "\<not> is_url (ustr ''http://Example.com/***/***'')
   \<and> stem_url uw (ustr ''http://Example.com/***/***'') = ustr ''http://Example.com/***''
   \<and> stem_url uw (ustr ''http://Example.com/***'') = ustr ''http://Example.com''"
  by code_simp

lemma stem_url_token_example:
  "stem_url uw (ustr ''anonymisiert-9f86d0-1b4e-17'') = ustr ''anonymisiert-9f86d0-1b4e''
   \<and> stem_url uw (ustr ''anonymisiert-9f86d0-1b4e'') = ustr ''anonymisiert-9f86d0-1b4e''"
  by code_simp

lemma stem_url_non_ascii_token:
  assumes "uw 228"
  shows "stem_url uw (ustr ''anonymisiert-'' @ [228] @ ustr ''-b/***/***'')
           = ustr ''anonymisiert-'' @ [228] @ ustr ''-b''
   \<and> stem_url uw (ustr ''anonymisiert-'' @ [228] @ ustr ''-b'')
           = ustr ''anonymisiert-'' @ [228] @ ustr ''-b''"
proof -
  have w: "word_char uw 228" using assms by (simp add: word_char_def)
  have nw: "\<not> word_char uw 45" "\<not> word_char uw 47" "word_char uw 98"
    by (simp_all add: word_char_def ustr_def)
  have u1: "is_url_r (ustr ''anonymisiert-'' @ [228] @ ustr ''-b/***/***'') = None"
    and u2: "is_url_r (ustr ''anonymisiert-'' @ [228] @ ustr ''-b'') = None"
    by code_simp+
  have m1: "anonym_match_at uw (ustr ''anonymisiert-'' @ ([228] @ ustr ''-b/***/***''))
      = Some (ustr ''anonymisiert-'' @ [228] @ ustr ''-b'')"
    unfolding anonym_match_at_def strip_prefix_append using w nw by (simp add: ustr_def)
  have m2: "anonym_match_at uw (ustr ''anonymisiert-'' @ ([228] @ ustr ''-b''))
      = Some (ustr ''anonymisiert-'' @ [228] @ ustr ''-b'')"
    unfolding anonym_match_at_def strip_prefix_append using w nw by (simp add: ustr_def)
  have f1: "anonym_first uw (ustr ''anonymisiert-'' @ [228] @ ustr ''-b/***/***'')
      = Some (ustr ''anonymisiert-'' @ [228] @ ustr ''-b'')"
    using anonym_first_at_head[OF m1] by simp
  have f2: "anonym_first uw (ustr ''anonymisiert-'' @ [228] @ ustr ''-b'')
      = Some (ustr ''anonymisiert-'' @ [228] @ ustr ''-b'')"
    using anonym_first_at_head[OF m2] by simp
  show ?thesis
    by (simp only: stem_url_def u1 u2 f1 f2 option.case simp_thms)
qed

section \<open>Properties of visit aggregation\<close>













text \<open>The same for a list of rows: \<open>N + 1\<close> copies of one joined row count once.\<close>

lemma visits_loop_seen:
  "visits_loop uw (replicate N (url, count, uid)) [(stem_url uw url, c)] {uid}
     = [(stem_url uw url, c)]"
  by (induction N) simp_all

lemma visits_loop_replicate:
  "visits_loop uw (replicate (Suc N) (url, count, uid)) [] {} = [(stem_url uw url, count)]"
  by (simp add: visits_loop_seen)


section \<open>The percentage division of visits\<close>

























section \<open>The unsupported-input path of the update\<close>



section \<open>Properties of the salted hash\<close>




lemma length_hex_digits: "length (hex_digits k n) = k"
  by (induction k arbitrary: n) simp_all




lemma length_uuid_hex: "length (uuid_hex u) = 32"
  by (simp add: uuid_hex_def length_hex_digits)











end
